theory Spec2Isabelle
  imports Complex_Main "HOL-Library.Char_ord" "HOL-Library.List_Lexorder" "HOL-Library.Multiset"
begin

section \<open>The 24 game solver of GAME-24.py\<close>

text \<open>
  The development embeds the solver core of \<^verbatim>\<open>GAME-24.py\<close>: the class \<^verbatim>\<open>Card\<close>, and of
  the class \<^verbatim>\<open>Game24\<close> the methods \<^verbatim>\<open>evaluate_expression\<close> (with its local function
  \<^verbatim>\<open>apply_op\<close>), \<^verbatim>\<open>find_all_solutions\<close>, \<^verbatim>\<open>find_all_solutions_from_numbers\<close> and
  \<^verbatim>\<open>has_solution\<close>.

  Operands are exact rationals (\<^typ>\<open>rat\<close>): \<^verbatim>\<open>evaluate_expression\<close> converts each of its
  four operands with \<^verbatim>\<open>Fraction(...)\<close> before anything else, which is the identity on a
  \<^verbatim>\<open>Fraction\<close> and the exact embedding on a Python \<^verbatim>\<open>int\<close>. Python exceptions are values
  of the type \<open>error\<close>; a function that can raise returns \<open>error + 'a\<close>.
\<close>

subsection \<open>Exceptions, operators and structures\<close>

datatype error = ZeroDivisionError | ValueError

text \<open>
  The source passes operators and structures around as strings, drawn from the two
  fixed lists \<^verbatim>\<open>operations\<close> and \<^verbatim>\<open>structures\<close> of \<^verbatim>\<open>find_all_solutions_from_numbers\<close>.
  They are enumerations here; \<open>op_symbol\<close> gives the source string of an operator, and
  the structures stand for the labels
  \<^verbatim>\<open>"((a op1 b) op2 c) op3 d"\<close>, \<^verbatim>\<open>"(a op1 (b op2 c)) op3 d"\<close>, \<^verbatim>\<open>"(a op1 b) op2 (c op3 d)"\<close>,
  \<^verbatim>\<open>"a op1 ((b op2 c) op3 d)"\<close> and \<^verbatim>\<open>"a op1 (b op2 (c op3 d))"\<close>, in this order.
\<close>

datatype operator = Add | Sub | Mul | Div

datatype expr_structure = Left_Left | Left_Right | Balanced | Right_Left | Right_Right

fun op_symbol :: "operator \<Rightarrow> string" where
  "op_symbol Add = ''+''"
| "op_symbol Sub = ''-''"
| "op_symbol Mul = ''*''"
| "op_symbol Div = ''/''"

definition operations :: "operator list" where
  "operations = [Add, Sub, Mul, Div]"

definition structures :: "expr_structure list" where
  "structures = [Left_Left, Left_Right, Balanced, Right_Left, Right_Right]"

subsection \<open>Rendering a Fraction\<close>

text \<open>
  \<^verbatim>\<open>str\<close> of a Python \<^verbatim>\<open>int\<close> is its decimal numeral with a leading minus sign when
  negative; \<^verbatim>\<open>Fraction.__str__\<close> prints the numerator alone when the denominator is 1 and
  \<^verbatim>\<open>numerator/denominator\<close> otherwise. A \<^verbatim>\<open>Fraction\<close> is kept in lowest terms with a
  positive denominator, which is what \<^const>\<open>quotient_of\<close> returns.
\<close>

definition digit_char :: "nat \<Rightarrow> char" where
  "digit_char n = ''0123456789'' ! n"

fun str_nat :: "nat \<Rightarrow> string" where
  "str_nat n = (if n < 10 then [digit_char n] else str_nat (n div 10) @ [digit_char (n mod 10)])"

declare str_nat.simps [simp del]

definition str_int :: "int \<Rightarrow> string" where
  "str_int i = (if i < 0 then CHR ''-'' # str_nat (nat (- i)) else str_nat (nat i))"

definition str_fraction :: "rat \<Rightarrow> string" where
  "str_fraction q =
     (case quotient_of q of (n, d) \<Rightarrow>
        if d = 1 then str_int n else str_int n @ ''/'' @ str_int d)"

subsection \<open>evaluate_expression\<close>

text \<open>
  The local function \<^verbatim>\<open>apply_op\<close>: the division raises \<^verbatim>\<open>ZeroDivisionError\<close> on a zero
  divisor, the other three operators always return.
\<close>

fun apply_op :: "rat \<Rightarrow> rat \<Rightarrow> operator \<Rightarrow> error + rat" where
  "apply_op x y Add = Inr (x + y)"
| "apply_op x y Sub = Inr (x - y)"
| "apply_op x y Mul = Inr (x * y)"
| "apply_op x y Div = (if y = 0 then Inl ZeroDivisionError else Inr (x / y))"

text \<open>Sequencing of calls that may raise: the first exception ends the computation.\<close>

fun and_then :: "error + 'a \<Rightarrow> ('a \<Rightarrow> error + 'b) \<Rightarrow> error + 'b" where
  "and_then (Inl e) f = Inl e"
| "and_then (Inr x) f = f x"

text \<open>
  The five branches of \<^verbatim>\<open>evaluate_expression\<close>. Each computes \<^verbatim>\<open>result\<close> by three calls of
  \<^verbatim>\<open>apply_op\<close>, arguments evaluated innermost first and left to right as Python does, and
  then builds \<^verbatim>\<open>expr\<close> with an f-string over the four \<^verbatim>\<open>Fraction\<close> operands.
\<close>

fun structure_result ::
  "rat \<Rightarrow> rat \<Rightarrow> rat \<Rightarrow> rat \<Rightarrow> operator \<Rightarrow> operator \<Rightarrow> operator \<Rightarrow> expr_structure \<Rightarrow> error + rat"
where
  "structure_result a b c d op1 op2 op3 Left_Left =
     and_then (apply_op a b op1) (\<lambda>ab.
     and_then (apply_op ab c op2) (\<lambda>abc.
     apply_op abc d op3))"
| "structure_result a b c d op1 op2 op3 Left_Right =
     and_then (apply_op b c op2) (\<lambda>bc.
     and_then (apply_op a bc op1) (\<lambda>abc.
     apply_op abc d op3))"
| "structure_result a b c d op1 op2 op3 Balanced =
     and_then (apply_op a b op1) (\<lambda>ab.
     and_then (apply_op c d op3) (\<lambda>cd.
     apply_op ab cd op2))"
| "structure_result a b c d op1 op2 op3 Right_Left =
     and_then (apply_op b c op2) (\<lambda>bc.
     and_then (apply_op bc d op3) (\<lambda>bcd.
     apply_op a bcd op1))"
| "structure_result a b c d op1 op2 op3 Right_Right =
     and_then (apply_op c d op3) (\<lambda>cd.
     and_then (apply_op b cd op2) (\<lambda>bcd.
     apply_op a bcd op1))"

fun structure_expr ::
  "rat \<Rightarrow> rat \<Rightarrow> rat \<Rightarrow> rat \<Rightarrow> operator \<Rightarrow> operator \<Rightarrow> operator \<Rightarrow> expr_structure \<Rightarrow> string"
where
  "structure_expr a b c d op1 op2 op3 Left_Left =
     ''(('' @ str_fraction a @ '' '' @ op_symbol op1 @ '' '' @ str_fraction b @ '') '' @
     op_symbol op2 @ '' '' @ str_fraction c @ '') '' @ op_symbol op3 @ '' '' @ str_fraction d"
| "structure_expr a b c d op1 op2 op3 Left_Right =
     ''('' @ str_fraction a @ '' '' @ op_symbol op1 @ '' ('' @ str_fraction b @ '' '' @
     op_symbol op2 @ '' '' @ str_fraction c @ '')) '' @ op_symbol op3 @ '' '' @ str_fraction d"
| "structure_expr a b c d op1 op2 op3 Balanced =
     ''('' @ str_fraction a @ '' '' @ op_symbol op1 @ '' '' @ str_fraction b @ '') '' @
     op_symbol op2 @ '' ('' @ str_fraction c @ '' '' @ op_symbol op3 @ '' '' @ str_fraction d @ '')''"
| "structure_expr a b c d op1 op2 op3 Right_Left =
     str_fraction a @ '' '' @ op_symbol op1 @ '' (('' @ str_fraction b @ '' '' @
     op_symbol op2 @ '' '' @ str_fraction c @ '') '' @ op_symbol op3 @ '' '' @ str_fraction d @ '')''"
| "structure_expr a b c d op1 op2 op3 Right_Right =
     str_fraction a @ '' '' @ op_symbol op1 @ '' ('' @ str_fraction b @ '' '' @
     op_symbol op2 @ '' ('' @ str_fraction c @ '' '' @ op_symbol op3 @ '' '' @ str_fraction d @ ''))''"

text \<open>
  The acceptance test is \<^verbatim>\<open>abs(result - 24) < 1e-9\<close> with \<^verbatim>\<open>result\<close> a \<^verbatim>\<open>Fraction\<close> and
  \<^verbatim>\<open>1e-9\<close> a float literal. \<^verbatim>\<open>Fraction.__lt__\<close> converts a finite float operand with
  \<^verbatim>\<open>Fraction.from_float\<close>, exactly, and compares the two rationals. The float \<^verbatim>\<open>1e-9\<close> is
  the IEEE double \<^verbatim>\<open>0x1.12e0be826d695p-30\<close>, that is \<open>4835703278458517 / 2 ^ 82\<close>, so the
  test is an exact comparison of rationals against this constant.
\<close>

definition tolerance :: rat where
  "tolerance = 4835703278458517 / 2 ^ 82"

text \<open>
  \<^verbatim>\<open>evaluate_expression\<close>: the \<^verbatim>\<open>try\<close> block catches \<^verbatim>\<open>ZeroDivisionError\<close> and
  \<^verbatim>\<open>ValueError\<close>, the only exceptions of the model, and returns \<^verbatim>\<open>(False, "")\<close> then.
\<close>

definition evaluate_expression ::
  "rat \<Rightarrow> rat \<Rightarrow> rat \<Rightarrow> rat \<Rightarrow> operator \<Rightarrow> operator \<Rightarrow> operator \<Rightarrow> expr_structure \<Rightarrow> bool \<times> string"
where
  "evaluate_expression a b c d op1 op2 op3 structure =
     (case structure_result a b c d op1 op2 op3 structure of
        Inl e \<Rightarrow> (False, '''')
      | Inr result \<Rightarrow>
          (let expr = structure_expr a b c d op1 op2 op3 structure in
           if \<bar>result - 24\<bar> < tolerance then (True, expr) else (False, expr)))"

subsection \<open>Cards\<close>

text \<open>
  A \<^verbatim>\<open>Card\<close> object has the fields \<^verbatim>\<open>suit\<close>, \<^verbatim>\<open>rank\<close> and \<^verbatim>\<open>value\<close>, the last computed
  once by \<^verbatim>\<open>_get_value\<close> in the constructor. For a rank that is neither \<^verbatim>\<open>'A'\<close> nor a face
  letter \<^verbatim>\<open>_get_value\<close> calls the Python builtin \<^verbatim>\<open>int\<close>, which is no code of this
  repository: it is the parameter \<open>py_int\<close> here.
\<close>

record card =
  suit :: string
  rank :: string
  card_value :: int

definition get_value :: "(string \<Rightarrow> error + int) \<Rightarrow> string \<Rightarrow> error + int" where
  "get_value py_int r =
     (if r = ''A'' then Inr 1
      else if r \<in> set [''J'', ''Q'', ''K''] then
        Inr (if r = ''J'' then 11 else if r = ''Q'' then 12 else 13)
      else py_int r)"

definition new_card :: "(string \<Rightarrow> error + int) \<Rightarrow> string \<Rightarrow> string \<Rightarrow> error + card" where
  "new_card py_int s r =
     and_then (get_value py_int r) (\<lambda>v. Inr \<lparr>suit = s, rank = r, card_value = v\<rparr>)"

subsection \<open>The enumeration\<close>

text \<open>
  \<^verbatim>\<open>itertools.permutations(numbers)\<close> yields the orderings of the positions of its
  argument, in lexicographic order of the positions: equal values at different
  positions give repeated tuples.
\<close>

function permutations :: "'a list \<Rightarrow> 'a list list" where
  "permutations xs =
     (if xs = [] then [[]]
      else concat (map (\<lambda>i. map ((#) (xs ! i)) (permutations (take i xs @ drop (Suc i) xs)))
                       [0..<length xs]))"
  by pat_completeness auto
termination
  by (relation "measure length") auto

declare permutations.simps [simp del]

text \<open>\<^verbatim>\<open>itertools.product(operations, repeat=3)\<close>: the triples, the last position fastest.\<close>

definition product3 :: "'a list \<Rightarrow> ('a \<times> 'a \<times> 'a) list" where
  "product3 xs = List.product xs (List.product xs xs)"

text \<open>
  The state of a run of \<^verbatim>\<open>find_all_solutions_from_numbers\<close>: the list object \<^verbatim>\<open>numbers\<close>
  of the caller, and the set \<^verbatim>\<open>solutions\<close> that the innermost loop body adds to.
\<close>

record search_state =
  numbers :: "rat list"
  solutions :: "string set"

text \<open>The three nested \<^verbatim>\<open>for\<close> loops, innermost first.\<close>

fun structure_loop ::
  "rat \<Rightarrow> rat \<Rightarrow> rat \<Rightarrow> rat \<Rightarrow> operator \<Rightarrow> operator \<Rightarrow> operator \<Rightarrow> expr_structure list \<Rightarrow>
   search_state \<Rightarrow> search_state"
where
  "structure_loop a b c d op1 op2 op3 [] st = st"
| "structure_loop a b c d op1 op2 op3 (structure # rest) st =
     (case evaluate_expression a b c d op1 op2 op3 structure of
        (is_solution, expr) \<Rightarrow>
          structure_loop a b c d op1 op2 op3 rest
            (if is_solution then st\<lparr>solutions := insert expr (solutions st)\<rparr> else st))"

fun ops_loop ::
  "rat \<Rightarrow> rat \<Rightarrow> rat \<Rightarrow> rat \<Rightarrow> (operator \<times> operator \<times> operator) list \<Rightarrow>
   search_state \<Rightarrow> search_state"
where
  "ops_loop a b c d [] st = st"
| "ops_loop a b c d ((op1, op2, op3) # rest) st =
     ops_loop a b c d rest (structure_loop a b c d op1 op2 op3 structures st)"

text \<open>
  The unpacking \<^verbatim>\<open>a, b, c, d = perm\<close> raises \<^verbatim>\<open>ValueError\<close> unless the tuple has four
  components; the statement stands outside every \<^verbatim>\<open>try\<close>, so the exception leaves
  \<^verbatim>\<open>find_all_solutions_from_numbers\<close>.
\<close>

fun perm_loop :: "rat list list \<Rightarrow> search_state \<Rightarrow> error + search_state" where
  "perm_loop [] st = Inr st"
| "perm_loop (perm # rest) st =
     (case perm of
        [a, b, c, d] \<Rightarrow> perm_loop rest (ops_loop a b c d (product3 operations) st)
      | _ \<Rightarrow> Inl ValueError)"

text \<open>
  The body of \<^verbatim>\<open>find_all_solutions_from_numbers\<close> up to its \<^verbatim>\<open>return\<close>: the final state.
  \<^verbatim>\<open>tuple(numbers)\<close> and \<^verbatim>\<open>itertools.permutations(numbers)\<close> read the list.
\<close>

definition search_run :: "rat list \<Rightarrow> bool \<Rightarrow> error + search_state" where
  "search_run nums keep_order =
     (let st = \<lparr>numbers = nums, solutions = {}\<rparr>;
          perms = (if keep_order then [numbers st] else permutations (numbers st))
      in perm_loop perms st)"

text \<open>
  \<^verbatim>\<open>return sorted(list(solutions))\<close>: the elements of a set are distinct and strings are
  ordered lexicographically by code point, so whatever order \<^verbatim>\<open>list\<close> gives them, the
  sorted list is the one increasing enumeration of the set.
\<close>

definition find_all_solutions_from_numbers :: "rat list \<Rightarrow> bool \<Rightarrow> error + string list" where
  "find_all_solutions_from_numbers nums keep_order =
     and_then (search_run nums keep_order) (\<lambda>st. Inr (sorted_list_of_set (solutions st)))"

text \<open>\<^verbatim>\<open>find_all_solutions\<close> leaves \<^verbatim>\<open>keep_order\<close> at its default, \<^verbatim>\<open>True\<close>.\<close>

definition find_all_solutions :: "card list \<Rightarrow> error + string list" where
  "find_all_solutions cards =
     find_all_solutions_from_numbers (map (\<lambda>c. of_int (card_value c)) cards) True"

definition has_solution :: "card list \<Rightarrow> error + bool" where
  "has_solution cards =
     and_then (find_all_solutions cards) (\<lambda>sols. Inr (length sols > 0))"

subsection \<open>Expressions as trees\<close>

text \<open>
  The reading of a candidate that the specification documents: a binary tree over the
  four operands, evaluated bottom up with exact arithmetic, a division by zero making
  the whole evaluation fail; and its fully parenthesised infix text.
\<close>

datatype expr = Operand rat | Binary operator expr expr

fun eval :: "expr \<Rightarrow> rat option" where
  "eval (Operand q) = Some q"
| "eval (Binary oper l r) =
     (case (eval l, eval r) of
        (Some x, Some y) \<Rightarrow>
          (case oper of
             Add \<Rightarrow> Some (x + y)
           | Sub \<Rightarrow> Some (x - y)
           | Mul \<Rightarrow> Some (x * y)
           | Div \<Rightarrow> if y = 0 then None else Some (x / y))
      | _ \<Rightarrow> None)"

fun render :: "expr \<Rightarrow> string" and render_arg :: "expr \<Rightarrow> string" where
  "render (Operand q) = str_fraction q"
| "render (Binary oper l r) = render_arg l @ '' '' @ op_symbol oper @ '' '' @ render_arg r"
| "render_arg (Operand q) = str_fraction q"
| "render_arg (Binary oper l r) = ''('' @ render (Binary oper l r) @ '')''"

text \<open>The five nestings of the specification's structure table.\<close>

fun tree ::
  "rat \<Rightarrow> rat \<Rightarrow> rat \<Rightarrow> rat \<Rightarrow> operator \<Rightarrow> operator \<Rightarrow> operator \<Rightarrow> expr_structure \<Rightarrow> expr"
where
  "tree a b c d op1 op2 op3 Left_Left =
     Binary op3 (Binary op2 (Binary op1 (Operand a) (Operand b)) (Operand c)) (Operand d)"
| "tree a b c d op1 op2 op3 Left_Right =
     Binary op3 (Binary op1 (Operand a) (Binary op2 (Operand b) (Operand c))) (Operand d)"
| "tree a b c d op1 op2 op3 Balanced =
     Binary op2 (Binary op1 (Operand a) (Operand b)) (Binary op3 (Operand c) (Operand d))"
| "tree a b c d op1 op2 op3 Right_Left =
     Binary op1 (Operand a) (Binary op3 (Binary op2 (Operand b) (Operand c)) (Operand d))"
| "tree a b c d op1 op2 op3 Right_Right =
     Binary op1 (Operand a) (Binary op2 (Operand b) (Binary op3 (Operand c) (Operand d)))"

text \<open>
  The candidates of a search: every ordering tried, with every operator triple and
  every structure; and the strings of those candidates whose value passes a test.
\<close>

definition orderings :: "rat list \<Rightarrow> bool \<Rightarrow> rat list list" where
  "orderings nums preserve_order = (if preserve_order then [nums] else permutations nums)"

definition candidates :: "rat list \<Rightarrow> bool \<Rightarrow> expr list" where
  "candidates nums preserve_order =
     concat (map (\<lambda>p.
       concat (map (\<lambda>op1.
         concat (map (\<lambda>op2.
           concat (map (\<lambda>op3.
             map (\<lambda>s. tree (p ! 0) (p ! 1) (p ! 2) (p ! 3) op1 op2 op3 s) structures)
             operations))
           operations))
         operations))
       (orderings nums preserve_order))"

definition passes :: "(rat \<Rightarrow> bool) \<Rightarrow> expr \<Rightarrow> bool" where
  "passes accept t = (case eval t of None \<Rightarrow> False | Some v \<Rightarrow> accept v)"

definition reference_solutions :: "(rat \<Rightarrow> bool) \<Rightarrow> rat list \<Rightarrow> bool \<Rightarrow> string set" where
  "reference_solutions accept nums preserve_order =
     set (map render (filter (passes accept) (candidates nums preserve_order)))"

definition is_24 :: "rat \<Rightarrow> bool" where
  "is_24 v = (v = 24)"

definition within_tolerance :: "rat \<Rightarrow> bool" where
  "within_tolerance v = (\<bar>v - 24\<bar> < tolerance)"

text \<open>A rank of the deck as an operand: an integer from 1 to 13.\<close>

definition is_rank :: "rat \<Rightarrow> bool" where
  "is_rank q = (q \<in> set (map of_int [1..13]))"

subsection \<open>Auxiliary notions of the proofs\<close>

text \<open>
  The strings that \<^verbatim>\<open>evaluate_expression\<close> accepts over a list of orderings: what the
  loops add to \<^verbatim>\<open>solutions\<close>.
\<close>

definition accepted :: "rat list list \<Rightarrow> string set" where
  "accepted perms = {e. \<exists>p\<in>set perms. \<exists>op1 op2 op3 s.
      evaluate_expression (p ! 0) (p ! 1) (p ! 2) (p ! 3) op1 op2 op3 s = (True, e)}"

text \<open>A rational with a representation whose numerator and denominator are bounded.\<close>

definition bounded_fraction :: "int \<Rightarrow> rat \<Rightarrow> bool" where
  "bounded_fraction B x = (\<exists>n d. d \<noteq> 0 \<and> \<bar>n\<bar> \<le> B \<and> \<bar>d\<bar> \<le> B \<and> x = of_int n / of_int d)"

text \<open>
  Every string of the result is the text of a candidate whose exact value is 24 (and the
  search returns).
\<close>

definition results_exact :: "rat list \<Rightarrow> bool \<Rightarrow> bool" where
  "results_exact nums keep_order =
     (case find_all_solutions_from_numbers nums keep_order of
        Inl e \<Rightarrow> False
      | Inr sols \<Rightarrow>
          list_all (\<lambda>e. list_ex (\<lambda>t. render t = e \<and> eval t = Some 24) (candidates nums keep_order)) sols)"

section \<open>Properties of the model\<close>

subsection \<open>The model on small inputs\<close>

text \<open>
  The enumeration orders of \<^verbatim>\<open>itertools.permutations\<close> and \<^verbatim>\<open>itertools.product\<close>, the rendering of
  integers and fractions, and one evaluation accepted by the tolerance test although its
  value is not 24.
\<close>

lemma permutations_example:
  "permutations [a, b, c] = [[a, b, c], [a, c, b], [b, a, c], [b, c, a], [c, a, b], [c, b, a]]"
  by (simp add: permutations.simps upt_rec)

lemma product3_example:
  "product3 [x, y] =
     [(x, x, x), (x, x, y), (x, y, x), (x, y, y), (y, x, x), (y, x, y), (y, y, x), (y, y, y)]"
  by (simp add: product3_def)

lemma str_int_examples: "str_int 240 = ''240''" "str_int (- 13) = ''-13''" "str_int 0 = ''0''"
  by (simp_all add: str_int_def str_nat.simps digit_char_def)

lemma quotient_of_half: "quotient_of (1 / 2) = (1, 2)"
proof -
  have "quotient_of (Fract 1 2) = (1, 2)" by (rule quotient_of_Fract [of 1 2, simplified]) 
  then show ?thesis by (simp add: Fract_of_int_quotient)
qed

lemma str_fraction_examples: "str_fraction 13 = ''13''" "str_fraction (1 / 2) = ''1/2''"  "str_fraction (- 7) = ''-7''"
  by (simp_all add: str_fraction_def quotient_of_half str_int_def str_nat.simps digit_char_def)

lemma near_miss_evaluated:
  "structure_result 24072072025 1001 1001 1001 Div Div Div Left_Left = Inr (24 + 1 / 1003003001)"
  "evaluate_expression 24072072025 1001 1001 1001 Div Div Div Left_Left =
     (True, ''((24072072025 / 1001) / 1001) / 1001'')"
  by (simp_all add: evaluate_expression_def tolerance_def str_fraction_def str_int_def str_nat.simps digit_char_def)

subsection \<open>The loops\<close>

text \<open>
  Each loop leaves \<^verbatim>\<open>numbers\<close> alone and adds to \<^verbatim>\<open>solutions\<close> the strings accepted for its
  candidates; the loop over the orderings raises exactly when an ordering has not four
  components.
\<close>

lemma structure_loop_numbers: "numbers (structure_loop a b c d op1 op2 op3 ss st) = numbers st"
  by (induction ss arbitrary: st) (auto split: prod.splits)

lemma structure_loop_solutions:
  "solutions (structure_loop a b c d op1 op2 op3 ss st) =
     solutions st \<union> {e. \<exists>s\<in>set ss. evaluate_expression a b c d op1 op2 op3 s = (True, e)}"
  by (induction ss arbitrary: st) (auto split: prod.splits)

lemma structure_loop_state:
  "structure_loop a b c d op1 op2 op3 ss st =
     st\<lparr>solutions := solutions st \<union>
        {e. \<exists>s\<in>set ss. evaluate_expression a b c d op1 op2 op3 s = (True, e)}\<rparr>"
  by (rule search_state.equality) (simp_all add: structure_loop_numbers structure_loop_solutions)

lemma ops_loop_numbers: "numbers (ops_loop a b c d ops st) = numbers st"
  by (induction a b c d ops st rule: ops_loop.induct) (auto simp: structure_loop_numbers)

lemma ops_loop_solutions:
  "solutions (ops_loop a b c d ops st) =
     solutions st \<union> {e. \<exists>(op1, op2, op3)\<in>set ops. \<exists>s\<in>set structures.
        evaluate_expression a b c d op1 op2 op3 s = (True, e)}"
  by (induction a b c d ops st rule: ops_loop.induct) (auto simp: structure_loop_solutions)

lemma set_structures: "set structures = UNIV"
proof -
  have "s \<in> set structures" for s by (cases s) (simp_all add: structures_def)
  then show ?thesis by auto
qed

lemma set_operations: "set operations = UNIV"
proof -
  have "s \<in> set operations" for s by (cases s) (simp_all add: operations_def)
  then show ?thesis by auto
qed

lemma set_product3: "set (product3 xs) = {(x, y, z). x \<in> set xs \<and> y \<in> set xs \<and> z \<in> set xs}"
  by (auto simp: product3_def)

lemma ops_loop_all:
  "solutions (ops_loop a b c d (product3 operations) st) =
     solutions st \<union> {e. \<exists>op1 op2 op3 s. evaluate_expression a b c d op1 op2 op3 s = (True, e)}"
  by (auto simp: ops_loop_solutions set_product3 set_operations set_structures)

lemma length4E:
  assumes "length p = 4"
  obtains a b c d where "p = [a, b, c, d]"
  using assms by (auto simp: length_Suc_conv numeral_eq_Suc)

lemma perm_loop_ok:
  assumes "\<forall>p\<in>set perms. length p = 4"
  shows "\<exists>st'. perm_loop perms st = Inr st' \<and> numbers st' = numbers st \<and>
           solutions st' = solutions st \<union> accepted perms"
  using assms
proof (induction perms arbitrary: st)
  case Nil
  then show ?case by (simp add: accepted_def)
next
  case (Cons p perms)
  then obtain a b c d where p: "p = [a, b, c, d]" by (auto elim: length4E)
  let ?st = "ops_loop a b c d (product3 operations) st"
  from Cons obtain st' where st': "perm_loop perms ?st = Inr st'" "numbers st' = numbers ?st"
    "solutions st' = solutions ?st \<union> accepted perms" by fastforce
  have "accepted (p # perms) = {e. \<exists>op1 op2 op3 s. evaluate_expression a b c d op1 op2 op3 s = (True, e)} \<union> accepted perms"
    by (auto simp: accepted_def p)
  with st' show ?case by (auto simp: p ops_loop_numbers ops_loop_all)
qed

lemma perm_loop_bad:
  assumes "\<exists>p\<in>set perms. length p \<noteq> 4"
  shows "perm_loop perms st = Inl ValueError"
  using assms
proof (induction perms arbitrary: st)
  case Nil
  then show ?case by simp
next
  case (Cons p perms)
  show ?case
  proof (cases "length p = 4")
    case True
    then obtain a b c d where p: "p = [a, b, c, d]" by (auto elim: length4E)
    with Cons show ?thesis by auto
  next
    case False
    then show ?thesis by (auto split: list.splits)
  qed
qed

lemma perm_loop_state:
  assumes "\<forall>p\<in>set perms. length p = 4"
  shows "perm_loop perms st = Inr (st\<lparr>solutions := solutions st \<union> accepted perms\<rparr>)"
proof -
  from perm_loop_ok [OF assms, of st] obtain st' where st': "perm_loop perms st = Inr st'"
    "numbers st' = numbers st" "solutions st' = solutions st \<union> accepted perms" by blast
  have "st' = st\<lparr>solutions := solutions st \<union> accepted perms\<rparr>"
    by (rule search_state.equality) (simp_all add: st')
  with st' show ?thesis by simp
qed

subsection \<open>Permutations\<close>

text \<open>The orderings enumerated are the lists with the same elements, counted with repetition.\<close>

lemma mset_remove_nth:
  assumes "i < length xs"
  shows "add_mset (xs ! i) (mset (take i xs @ drop (Suc i) xs)) = mset xs"
proof -
  have "xs = take i xs @ xs ! i # drop (Suc i) xs"
    using assms by (rule id_take_nth_drop)
  then have "mset xs = mset (take i xs @ xs ! i # drop (Suc i) xs)" by simp
  then show ?thesis by simp
qed

lemma permutations_mset:
  "ys \<in> set (permutations xs) \<Longrightarrow> mset ys = mset xs"
proof (induction xs arbitrary: ys rule: permutations.induct)
  case (1 xs)
  show ?case
  proof (cases "xs = []")
    case True
    with "1.prems" show ?thesis by (simp add: permutations.simps)
  next
    case False
    with "1.prems" obtain i zs where i: "i < length xs"
      and zs: "zs \<in> set (permutations (take i xs @ drop (Suc i) xs))" and ys: "ys = xs ! i # zs"
      by (subst (asm) permutations.simps) auto
    from "1.IH" [OF False _ zs] i have "mset zs = mset (take i xs @ drop (Suc i) xs)" by simp
    with ys mset_remove_nth [OF i] show ?thesis by simp
  qed
qed

lemma mset_permutations:
  "mset ys = mset xs \<Longrightarrow> ys \<in> set (permutations xs)"
proof (induction xs arbitrary: ys rule: permutations.induct)
  case (1 xs)
  show ?case
  proof (cases "xs = []")
    case True
    with "1.prems" show ?thesis by (simp add: permutations.simps)
  next
    case False
    with "1.prems" obtain y zs where ys: "ys = y # zs" by (cases ys) auto
    with "1.prems" have "y \<in> set xs" by (metis list.set_intros(1) mset_eq_setD)
    then obtain i where i: "i < length xs" "xs ! i = y" by (auto simp: in_set_conv_nth)
    have "add_mset y (mset zs) = add_mset y (mset (take i xs @ drop (Suc i) xs))"
      using "1.prems" ys mset_remove_nth [OF i(1)] i(2) by simp
    then have "mset zs = mset (take i xs @ drop (Suc i) xs)" by simp
    from "1.IH" [OF False _ this] i have "zs \<in> set (permutations (take i xs @ drop (Suc i) xs))"
      by simp
    with i ys False show ?thesis
      by (subst permutations.simps) auto
  qed
qed

lemma set_permutations: "set (permutations xs) = {ys. mset ys = mset xs}"
  using permutations_mset mset_permutations by blast


lemma permutations_length: "ys \<in> set (permutations xs) \<Longrightarrow> length ys = length xs"
  using permutations_mset mset_eq_length by blast

lemma self_in_permutations: "xs \<in> set (permutations xs)"
  by (simp add: set_permutations)

subsection \<open>The code against the expression trees\<close>

text \<open>
  Each branch of \<^verbatim>\<open>evaluate_expression\<close> computes the value of the tree of its structure and
  builds the text of that tree.
\<close>

lemma apply_op_eval:
  "apply_op x y oper = (case eval (Binary oper (Operand x) (Operand y)) of
      None \<Rightarrow> Inl ZeroDivisionError | Some v \<Rightarrow> Inr v)"
  by (cases oper) auto

lemma structure_result_eval:
  "structure_result a b c d op1 op2 op3 s =
     (case eval (tree a b c d op1 op2 op3 s) of None \<Rightarrow> Inl ZeroDivisionError | Some v \<Rightarrow> Inr v)"
  by (cases s; cases op1; cases op2; cases op3) simp_all

lemma structure_expr_render:
  "structure_expr a b c d op1 op2 op3 s = render (tree a b c d op1 op2 op3 s)"
  by (cases s) simp_all

lemma evaluate_expression_True:
  "evaluate_expression a b c d op1 op2 op3 s = (True, e) \<longleftrightarrow>
     e = render (tree a b c d op1 op2 op3 s) \<and> passes within_tolerance (tree a b c d op1 op2 op3 s)"
  by (auto simp: evaluate_expression_def structure_result_eval structure_expr_render passes_def
      within_tolerance_def Let_def split: option.splits)

lemma evaluate_expression_raise:
  "structure_result a b c d op1 op2 op3 s = Inl e \<Longrightarrow>
     evaluate_expression a b c d op1 op2 op3 s = (False, '''')"
  by (simp add: evaluate_expression_def)

lemma passes_is_24: "passes is_24 t \<longleftrightarrow> eval t = Some 24"
  by (auto simp: passes_def is_24_def split: option.splits)

lemma and_then_Inr: "and_then m f = Inr z \<longleftrightarrow> (\<exists>y. m = Inr y \<and> f y = Inr z)"
  by (cases m) auto

subsection \<open>Values reachable from ranks\<close>

text \<open>
  An operator applied to fractions bounded by \<open>B1\<close> and \<open>B2\<close> gives a fraction bounded by
  \<open>2 * B1 * B2\<close>, so three operators on four ranks give numerator and denominator of at
  most \<open>8 * 13 ^ 4 = 228488\<close>; and a fraction with such a denominator, when it is not 24,
  is at least \<open>1 / 228488\<close> away from 24.
\<close>

lemma bounded_fraction_apply_op:
  assumes x: "bounded_fraction B1 x" and y: "bounded_fraction B2 y"
    and z: "apply_op x y oper = Inr z"
  shows "bounded_fraction (2 * B1 * B2) z"
proof -
  from x obtain n1 d1 where 1: "d1 \<noteq> 0" "\<bar>n1\<bar> \<le> B1" "\<bar>d1\<bar> \<le> B1" "x = of_int n1 / of_int d1"
    unfolding bounded_fraction_def by blast
  from y obtain n2 d2 where 2: "d2 \<noteq> 0" "\<bar>n2\<bar> \<le> B2" "\<bar>d2\<bar> \<le> B2" "y = of_int n2 / of_int d2"
    unfolding bounded_fraction_def by blast
  have B: "0 \<le> B1" "0 \<le> B2" using 1 2 by linarith+
  have prod: "\<bar>u * v\<bar> \<le> B1 * B2" if "\<bar>u\<bar> \<le> B1" "\<bar>v\<bar> \<le> B2" for u v :: int
    using that B by (simp add: abs_mult mult_mono)
  have le2: "B1 * B2 \<le> 2 * B1 * B2" using B by simp
  have dd: "\<bar>d1 * d2\<bar> \<le> 2 * B1 * B2" using prod [OF 1(3) 2(3)] le2 by linarith
  show ?thesis
  proof (cases oper)
    case Add
    have "\<bar>n1 * d2 + n2 * d1\<bar> \<le> \<bar>n1 * d2\<bar> + \<bar>d1 * n2\<bar>" by (simp add: mult.commute abs_triangle_ineq)
    also have "\<dots> \<le> B1 * B2 + B1 * B2" using prod [OF 1(2) 2(3)] prod [OF 1(3) 2(2)] by linarith
    finally have nn: "\<bar>n1 * d2 + n2 * d1\<bar> \<le> 2 * B1 * B2" by simp
    have "z = of_int (n1 * d2 + n2 * d1) / of_int (d1 * d2)"
      using z Add 1 2 by (simp add: add_frac_eq)
    with nn dd 1 2 show ?thesis unfolding bounded_fraction_def
      by (intro exI [of _ "n1 * d2 + n2 * d1"] exI [of _ "d1 * d2"]) simp
  next
    case Sub
    have "\<bar>n1 * d2 - n2 * d1\<bar> \<le> \<bar>n1 * d2\<bar> + \<bar>d1 * n2\<bar>" by (simp add: mult.commute abs_triangle_ineq4)
    also have "\<dots> \<le> B1 * B2 + B1 * B2" using prod [OF 1(2) 2(3)] prod [OF 1(3) 2(2)] by linarith
    finally have nn: "\<bar>n1 * d2 - n2 * d1\<bar> \<le> 2 * B1 * B2" by simp
    have "z = of_int (n1 * d2 - n2 * d1) / of_int (d1 * d2)"
      using z Sub 1 2 by (simp add: diff_frac_eq)
    with nn dd 1 2 show ?thesis unfolding bounded_fraction_def
      by (intro exI [of _ "n1 * d2 - n2 * d1"] exI [of _ "d1 * d2"]) simp
  next
    case Mul
    have nn: "\<bar>n1 * n2\<bar> \<le> 2 * B1 * B2" using prod [OF 1(2) 2(2)] le2 by linarith
    have "z = of_int (n1 * n2) / of_int (d1 * d2)"
      using z Mul 1 2 by simp
    with nn dd 1 2 show ?thesis unfolding bounded_fraction_def
      by (intro exI [of _ "n1 * n2"] exI [of _ "d1 * d2"]) simp
  next
    case Div
    with z have y0: "y \<noteq> 0" and zz: "z = x / y" by (auto split: if_splits)
    from y0 2 have n2: "n2 \<noteq> 0" by auto
    have nn: "\<bar>n1 * d2\<bar> \<le> 2 * B1 * B2" using prod [OF 1(2) 2(3)] le2 by linarith
    have dn: "\<bar>d1 * n2\<bar> \<le> 2 * B1 * B2" using prod [OF 1(3) 2(2)] le2 by linarith
    have "z = of_int (n1 * d2) / of_int (d1 * n2)"
      using zz 1 2 by simp
    with nn dn 1 n2 show ?thesis unfolding bounded_fraction_def
      by (intro exI [of _ "n1 * d2"] exI [of _ "d1 * n2"]) simp
  qed
qed

lemma bounded_fraction_gap:
  assumes "bounded_fraction B v" and "v \<noteq> 24"
  shows "1 / of_int B \<le> \<bar>v - 24\<bar>"
proof -
  from assms(1) obtain n d where nd: "d \<noteq> 0" "\<bar>n\<bar> \<le> B" "\<bar>d\<bar> \<le> B" "v = of_int n / of_int d"
    unfolding bounded_fraction_def by blast
  have dpos: "0 < \<bar>d\<bar>" using nd by simp
  have "v - 24 = of_int (n - 24 * d) / of_int d"
    using nd by (simp add: field_simps)
  then have abs: "\<bar>v - 24\<bar> = of_int \<bar>n - 24 * d\<bar> / of_int \<bar>d\<bar>"
    by (simp only: abs_divide of_int_abs)
  have "n - 24 * d \<noteq> 0"
  proof
    assume "n - 24 * d = 0"
    then have "n = 24 * d" by simp
    with nd have "v = 24" by simp
    with assms(2) show False by simp
  qed
  then have one: "1 \<le> \<bar>n - 24 * d\<bar>" by linarith
  have "(1::rat) / of_int B \<le> 1 / of_int \<bar>d\<bar>"
    using dpos nd(3) by (intro divide_left_mono) (auto simp: of_int_le_iff [symmetric] simp del: of_int_le_iff of_int_abs)
  also have "\<dots> \<le> of_int \<bar>n - 24 * d\<bar> / of_int \<bar>d\<bar>"
    using one dpos by (intro divide_right_mono) (auto simp del: of_int_abs)
  finally show ?thesis using abs by simp
qed

lemma is_rank_bounded: "is_rank q \<Longrightarrow> bounded_fraction 13 q"
proof -
  assume "is_rank q"
  then obtain i :: int where i: "1 \<le> i" "i \<le> 13" "q = of_int i"
    by (auto simp: is_rank_def)
  then show ?thesis unfolding bounded_fraction_def
    by (intro exI [of _ i] exI [of _ 1]) auto
qed

lemma structure_result_bounded:
  assumes "bounded_fraction 13 a" "bounded_fraction 13 b" "bounded_fraction 13 c" "bounded_fraction 13 d"
    and "structure_result a b c d op1 op2 op3 s = Inr v"
  shows "bounded_fraction 228488 v"
proof (cases s)
  case Left_Left
  with assms(5) obtain ab abc where "apply_op a b op1 = Inr ab" "apply_op ab c op2 = Inr abc"
    "apply_op abc d op3 = Inr v" by (auto simp: and_then_Inr)
  then show ?thesis
    using bounded_fraction_apply_op [OF bounded_fraction_apply_op [OF bounded_fraction_apply_op [OF assms(1,2)] assms(3)] assms(4), of op1 ab op2 abc op3 v]
    by simp
next
  case Left_Right
  with assms(5) obtain bc abc where "apply_op b c op2 = Inr bc" "apply_op a bc op1 = Inr abc"
    "apply_op abc d op3 = Inr v" by (auto simp: and_then_Inr)
  then show ?thesis
    using bounded_fraction_apply_op [OF bounded_fraction_apply_op [OF assms(1) bounded_fraction_apply_op [OF assms(2,3)]] assms(4), of op2 bc op1 abc op3 v]
    by simp
next
  case Balanced
  with assms(5) obtain ab cd where "apply_op a b op1 = Inr ab" "apply_op c d op3 = Inr cd"
    "apply_op ab cd op2 = Inr v" by (auto simp: and_then_Inr)
  then show ?thesis
    using bounded_fraction_apply_op [OF bounded_fraction_apply_op [OF assms(1,2)] bounded_fraction_apply_op [OF assms(3,4)], of op1 ab op3 cd op2 v]
    by simp
next
  case Right_Left
  with assms(5) obtain bc bcd where "apply_op b c op2 = Inr bc" "apply_op bc d op3 = Inr bcd"
    "apply_op a bcd op1 = Inr v" by (auto simp: and_then_Inr)
  then show ?thesis
    using bounded_fraction_apply_op [OF assms(1) bounded_fraction_apply_op [OF bounded_fraction_apply_op [OF assms(2,3)] assms(4)], of op2 bc op3 bcd op1 v]
    by simp
next
  case Right_Right
  with assms(5) obtain cd bcd where "apply_op c d op3 = Inr cd" "apply_op b cd op2 = Inr bcd"
    "apply_op a bcd op1 = Inr v" by (auto simp: and_then_Inr)
  then show ?thesis
    using bounded_fraction_apply_op [OF assms(1) bounded_fraction_apply_op [OF assms(2) bounded_fraction_apply_op [OF assms(3,4)]], of op3 cd op2 bcd op1 v]
    by simp
qed

lemma tolerance_small: "tolerance < 1 / 228488"
  by (simp add: tolerance_def)

lemma tolerance_pos: "0 < tolerance"
  by (simp add: tolerance_def)

lemma rank_gap:
  assumes "is_rank a" "is_rank b" "is_rank c" "is_rank d"
    and "structure_result a b c d op1 op2 op3 s = Inr v" and "v \<noteq> 24"
  shows "1 / 228488 \<le> \<bar>v - 24\<bar>"
  using bounded_fraction_gap [OF structure_result_bounded [OF assms(1-4) [THEN is_rank_bounded] assms(5)] assms(6)]
  by simp

lemma rank_within_tolerance:
  assumes "is_rank a" "is_rank b" "is_rank c" "is_rank d"
    and "structure_result a b c d op1 op2 op3 s = Inr v"
  shows "within_tolerance v \<longleftrightarrow> is_24 v"
proof
  assume w: "within_tolerance v"
  show "is_24 v"
  proof (rule ccontr)
    assume "\<not> is_24 v"
    then have "v \<noteq> 24" by (simp add: is_24_def)
    from rank_gap [OF assms this] w tolerance_small show False
      unfolding within_tolerance_def by linarith
  qed
next
  assume "is_24 v"
  then show "within_tolerance v"
    using tolerance_pos by (simp add: within_tolerance_def is_24_def)
qed

subsection \<open>The result of the search\<close>

text \<open>
  On four operands the search returns the sorted list of the reference set for the
  tolerance test; on other lists it raises \<^verbatim>\<open>ValueError\<close>.
\<close>

lemma ops_trees_iff:
  "t \<in> (\<Union>op1 op2 op3. range (tree a b c d op1 op2 op3)) \<longleftrightarrow>
     (\<exists>op1 op2 op3 s. t = tree a b c d op1 op2 op3 s)"
  unfolding UN_iff image_iff by simp

lemma candidates_iff:
  "t \<in> set (candidates nums keep) \<longleftrightarrow>
     (\<exists>p\<in>set (orderings nums keep). \<exists>op1 op2 op3 s.
        t = tree (p ! 0) (p ! 1) (p ! 2) (p ! 3) op1 op2 op3 s)"
  unfolding ops_trees_iff [symmetric]
  by (simp add: candidates_def set_operations set_structures)

lemma reference_solutions_iff:
  "e \<in> reference_solutions accept nums keep \<longleftrightarrow>
     (\<exists>p\<in>set (orderings nums keep). \<exists>op1 op2 op3 s.
        e = render (tree (p ! 0) (p ! 1) (p ! 2) (p ! 3) op1 op2 op3 s) \<and>
        passes accept (tree (p ! 0) (p ! 1) (p ! 2) (p ! 3) op1 op2 op3 s))"
proof -
  have "e \<in> reference_solutions accept nums keep \<longleftrightarrow>
      (\<exists>t. t \<in> set (candidates nums keep) \<and> passes accept t \<and> e = render t)"
    unfolding reference_solutions_def by auto
  also have "\<dots> \<longleftrightarrow> (\<exists>p\<in>set (orderings nums keep). \<exists>op1 op2 op3 s.
        e = render (tree (p ! 0) (p ! 1) (p ! 2) (p ! 3) op1 op2 op3 s) \<and>
        passes accept (tree (p ! 0) (p ! 1) (p ! 2) (p ! 3) op1 op2 op3 s))"
    unfolding candidates_iff by blast
  finally show ?thesis .
qed

lemma reference_candidate_ex:
  assumes t: "passes accept (tree a b c d op1 op2 op3 s)"
  shows "\<exists>op1' op2' op3' s'.
        render (tree a b c d op1 op2 op3 s) = render (tree ([a, b, c, d] ! 0) ([a, b, c, d] ! 1) ([a, b, c, d] ! 2) ([a, b, c, d] ! 3) op1' op2' op3' s') \<and>
        passes accept (tree ([a, b, c, d] ! 0) ([a, b, c, d] ! 1) ([a, b, c, d] ! 2) ([a, b, c, d] ! 3) op1' op2' op3' s')"
  apply (rule exI [of _ op1])
  apply (rule exI [of _ op2])
  apply (rule exI [of _ op3])
  apply (rule exI [of _ s])
  apply (simp only: nth_Cons_0 nth_Cons_Suc One_nat_def numeral_2_eq_2 numeral_3_eq_3 t)
  done

lemma reference_solutionsI:
  assumes p: "[a, b, c, d] \<in> set (orderings nums keep)"
    and t: "passes accept (tree a b c d op1 op2 op3 s)"
  shows "render (tree a b c d op1 op2 op3 s) \<in> reference_solutions accept nums keep"
  unfolding reference_solutions_iff
  by (rule bexI [OF _ p]) (rule reference_candidate_ex [OF t])

lemma accepted_iff:
  "e \<in> accepted perms \<longleftrightarrow>
     (\<exists>p\<in>set perms. \<exists>op1 op2 op3 s.
        e = render (tree (p ! 0) (p ! 1) (p ! 2) (p ! 3) op1 op2 op3 s) \<and>
        passes within_tolerance (tree (p ! 0) (p ! 1) (p ! 2) (p ! 3) op1 op2 op3 s))"
  unfolding accepted_def mem_Collect_eq evaluate_expression_True ..

lemma accepted_reference:
  "accepted (orderings nums keep) = reference_solutions within_tolerance nums keep"
  unfolding set_eq_iff reference_solutions_iff accepted_iff by simp

lemma orderings_length: "p \<in> set (orderings nums keep) \<Longrightarrow> length p = length nums"
  by (auto simp: orderings_def permutations_length split: if_splits)

lemma orderings_set: "p \<in> set (orderings nums keep) \<Longrightarrow> set p = set nums"
  by (auto simp: orderings_def set_permutations split: if_splits dest: mset_eq_setD)



lemma search_run_orderings:
  "search_run nums keep = perm_loop (orderings nums keep) \<lparr>numbers = nums, solutions = {}\<rparr>"
  unfolding search_run_def orderings_def Let_def by simp

lemma search_run_ok:
  assumes "length nums = 4"
  shows "\<exists>st. search_run nums keep = Inr st \<and> numbers st = nums \<and>
           solutions st = reference_solutions within_tolerance nums keep"
proof -
  have "\<forall>p\<in>set (orderings nums keep). length p = 4"
    using assms orderings_length by auto
  from perm_loop_ok [OF this, of "\<lparr>numbers = nums, solutions = {}\<rparr>"]
  obtain st' where "perm_loop (orderings nums keep) \<lparr>numbers = nums, solutions = {}\<rparr> = Inr st'"
    "numbers st' = nums" "solutions st' = accepted (orderings nums keep)"
    by auto
  then show ?thesis
    unfolding search_run_orderings accepted_reference by blast
qed

lemma search_run_bad:
  assumes "length nums \<noteq> 4"
  shows "search_run nums keep = Inl ValueError"
proof -
  have "nums \<in> set (orderings nums keep)"
    by (simp add: orderings_def self_in_permutations)
  with assms have "\<exists>p\<in>set (orderings nums keep). length p \<noteq> 4" by blast
  from perm_loop_bad [OF this]
  show ?thesis
    unfolding search_run_orderings .
qed

lemma find_all_reference:
  assumes "length nums = 4"
  shows "find_all_solutions_from_numbers nums keep =
           Inr (sorted_list_of_set (reference_solutions within_tolerance nums keep))"
  using search_run_ok [OF assms, of keep]
  by (auto simp: find_all_solutions_from_numbers_def)

lemma finite_reference: "finite (reference_solutions accept nums keep)"
  by (simp add: reference_solutions_def)

lemma set_sorted_reference:
  "set (sorted_list_of_set (reference_solutions accept nums keep)) = reference_solutions accept nums keep"
  by (simp add: finite_reference)

lemma rank_passes:
  assumes "is_rank a" "is_rank b" "is_rank c" "is_rank d"
  shows "passes within_tolerance (tree a b c d op1 op2 op3 s) \<longleftrightarrow> passes is_24 (tree a b c d op1 op2 op3 s)"
proof (cases "eval (tree a b c d op1 op2 op3 s)")
  case None
  then show ?thesis by (simp add: passes_def)
next
  case (Some v)
  then have "structure_result a b c d op1 op2 op3 s = Inr v"
    by (simp add: structure_result_eval)
  from rank_within_tolerance [OF assms this] Some show ?thesis
    by (simp add: passes_def)
qed

lemma rank_reference:
  assumes len: "length nums = 4" and ranks: "list_all is_rank nums"
  shows "reference_solutions within_tolerance nums keep = reference_solutions is_24 nums keep"
proof -
  have "passes within_tolerance (tree (p ! 0) (p ! 1) (p ! 2) (p ! 3) op1 op2 op3 s) \<longleftrightarrow>
        passes is_24 (tree (p ! 0) (p ! 1) (p ! 2) (p ! 3) op1 op2 op3 s)"
    if p: "p \<in> set (orderings nums keep)" for p op1 op2 op3 s
  proof -
    from p len have lp: "length p = 4" by (simp add: orderings_length)
    from p ranks have "list_all is_rank p" by (simp add: list_all_iff orderings_set)
    with lp have "is_rank (p ! 0)" "is_rank (p ! 1)" "is_rank (p ! 2)" "is_rank (p ! 3)"
      by (simp_all add: list_all_length)
    then show ?thesis by (rule rank_passes)
  qed
  then show ?thesis
    unfolding set_eq_iff reference_solutions_iff by simp
qed

subsection \<open>Three hands\<close>

text \<open>
  The operands 24072072025, 1001, 1001, 1001, for which a candidate is accepted and none
  has the value 24; four ones; and 6, 6, 2, 2.
\<close>

lemma near_miss_never_exact: "\<not> passes is_24 (tree 24072072025 1001 1001 1001 op1 op2 op3 s)"
  by (cases s; cases op1; cases op2; cases op3) (simp_all add: passes_def is_24_def)

lemma near_miss_passes: "passes within_tolerance (tree 24072072025 1001 1001 1001 Div Div Div Left_Left)"
  by (simp add: passes_def within_tolerance_def tolerance_def)

lemma near_miss_no_exact_solution:
  "reference_solutions is_24 [24072072025, 1001, 1001, 1001] True = {}"
  unfolding set_eq_iff reference_solutions_iff
  by (simp add: orderings_def near_miss_never_exact)

lemma near_miss_accepted:
  "reference_solutions within_tolerance [24072072025, 1001, 1001, 1001] True \<noteq> {}"
proof -
  have "render (tree 24072072025 1001 1001 1001 Div Div Div Left_Left)
          \<in> reference_solutions within_tolerance [24072072025, 1001, 1001, 1001] True"
    unfolding reference_solutions_iff
    using near_miss_passes by (auto simp: orderings_def simp del: render.simps tree.simps)
  then show ?thesis by blast
qed

lemma ones_never_pass: "\<not> passes within_tolerance (tree 1 1 1 1 op1 op2 op3 s)"
  by (cases s; cases op1; cases op2; cases op3) (simp_all add: passes_def within_tolerance_def tolerance_def)

lemma ones_only:
  assumes "p \<in> set (orderings [1, 1, 1, 1] keep)"
  shows "p = [1, 1, 1, 1]"
proof -
  from assms have l: "length p = 4" by (simp add: orderings_length)
  from assms have s: "set p = {1}" by (simp add: orderings_set)
  from l obtain a b c d where p: "p = [a, b, c, d]" by (auto elim: length4E)
  with s show ?thesis by auto
qed

lemma ones_empty: "reference_solutions within_tolerance [1, 1, 1, 1] keep = {}"
proof -
  have "\<not> passes within_tolerance (tree (p ! 0) (p ! 1) (p ! 2) (p ! 3) op1 op2 op3 s)"
    if "p \<in> set (orderings [1, 1, 1, 1] keep)" for p op1 op2 op3 s
    using ones_only [OF that] ones_never_pass [of op1 op2 op3 s] by simp
  then show ?thesis
    unfolding set_eq_iff reference_solutions_iff by simp
qed

lemma str_fraction_6_2: "str_fraction 6 = ''6''" "str_fraction 2 = ''2''"
  by (simp_all add: str_fraction_def str_int_def str_nat.simps digit_char_def)

lemma render_6_2_6_2: "render (tree 6 2 6 2 Mul Add Mul Balanced) = ''(6 * 2) + (6 * 2)''"
  by (simp add: str_fraction_6_2)

lemma passes_6_2_6_2: "passes within_tolerance (tree 6 2 6 2 Mul Add Mul Balanced)"
  by (simp add: passes_def within_tolerance_def tolerance_def)

lemma six_two_member: "''(6 * 2) + (6 * 2)'' \<in> reference_solutions within_tolerance [6, 6, 2, 2] False"
proof -
  have p: "[6, 2, 6, 2] \<in> set (orderings [6, 6, 2, 2] False)"
    by (simp add: orderings_def set_permutations)
  from reference_solutionsI [OF p passes_6_2_6_2] show ?thesis by (simp only: render_6_2_6_2)
qed

section \<open>The claims\<close>




text \<open>
  Claim C2. For four operands that are ranks from 1 to 13 and either mode, the search
  returns, and every string of its result is the text of a candidate of the search whose
  exact value is 24. (The code decides membership by \<open>\<bar>v - 24\<bar> < tolerance\<close>; on ranks
  this test and equality with 24 agree.)
\<close>

theorem rank_results_exact:
  assumes "length nums = 4" and "list_all is_rank nums"
  shows "results_exact nums keep_order"
proof -
  have eq: "find_all_solutions_from_numbers nums keep_order =
      Inr (sorted_list_of_set (reference_solutions is_24 nums keep_order))"
    using find_all_reference [OF assms(1), of keep_order] rank_reference [OF assms, of keep_order]
    by simp
  have "\<exists>t\<in>set (candidates nums keep_order). render t = e \<and> eval t = Some 24"
    if "e \<in> reference_solutions is_24 nums keep_order" for e
    using that unfolding reference_solutions_def by (auto simp: passes_is_24)
  then show ?thesis
    unfolding results_exact_def eq by (simp add: list_all_iff list_ex_iff set_sorted_reference)
qed

text \<open>The theorem at the hand 6, 6, 2, 2 with every ordering tried.\<close>

theorem rank_results_exact_witness:
  "results_exact [6, 6, 2, 2] False"
  using rank_results_exact [of "[6, 6, 2, 2]" False] by (simp add: is_rank_def)

text \<open>
  With the operands 24072072025, 1001, 1001, 1001 in the given order the result is not
  empty, and no candidate of the search has the value 24.
\<close>

theorem results_exact_counterexample:
  "\<not> results_exact [24072072025, 1001, 1001, 1001] True"
proof -
  have eq: "find_all_solutions_from_numbers [24072072025, 1001, 1001, 1001] True =
      Inr (sorted_list_of_set (reference_solutions within_tolerance [24072072025, 1001, 1001, 1001] True))"
    by (rule find_all_reference) simp
  obtain e where e: "e \<in> reference_solutions within_tolerance [24072072025, 1001, 1001, 1001] True"
    using near_miss_accepted by blast
  have "\<not> (\<exists>t\<in>set (candidates [24072072025, 1001, 1001, 1001] True). render t = e \<and> eval t = Some 24)"
  proof
    assume "\<exists>t\<in>set (candidates [24072072025, 1001, 1001, 1001] True). render t = e \<and> eval t = Some 24"
    then have "e \<in> reference_solutions is_24 [24072072025, 1001, 1001, 1001] True"
      unfolding reference_solutions_def by (auto simp: passes_is_24)
    then show False by (simp add: near_miss_no_exact_solution)
  qed
  with e show ?thesis
    unfolding results_exact_def eq by (auto simp: list_all_iff list_ex_iff set_sorted_reference)
qed

text \<open>
  Claim C3. For four operands and either mode the search does not raise: it returns a
  sorted list, whose elements are exactly the strings of the candidates that
  \<^verbatim>\<open>evaluate_expression\<close> accepts, so that the list is empty exactly when no candidate is
  accepted. A candidate whose evaluation raises (a division by zero) makes
  \<^verbatim>\<open>evaluate_expression\<close> return \<^verbatim>\<open>(False, "")\<close>: it adds nothing and the loops go on.
\<close>

theorem search_never_raises:
  assumes "length nums = 4"
  shows "\<exists>sols. find_all_solutions_from_numbers nums keep_order = Inr sols \<and> sorted sols \<and>
           set sols = accepted (orderings nums keep_order) \<and>
           (sols = [] \<longleftrightarrow> accepted (orderings nums keep_order) = {}) \<and>
           (\<forall>a b c d op1 op2 op3 s e. structure_result a b c d op1 op2 op3 s = Inl e \<longrightarrow>
              evaluate_expression a b c d op1 op2 op3 s = (False, []))"
proof -
  let ?S = "reference_solutions within_tolerance nums keep_order"
  have "find_all_solutions_from_numbers nums keep_order = Inr (sorted_list_of_set ?S)"
    using assms by (rule find_all_reference)
  moreover have "sorted (sorted_list_of_set ?S)" by simp
  moreover have "set (sorted_list_of_set ?S) = accepted (orderings nums keep_order)"
    by (simp add: set_sorted_reference accepted_reference)
  moreover have "sorted_list_of_set ?S = [] \<longleftrightarrow> accepted (orderings nums keep_order) = {}"
    by (simp add: finite_reference accepted_reference)
  ultimately show ?thesis
    using evaluate_expression_raise by blast
qed

text \<open>
  The theorem at the operands 1, 0, 2, 3 with every ordering tried; the candidate
  \<open>((1 / 0) + 2) + 3\<close> divides by zero.
\<close>

theorem search_never_raises_witness:
  "\<exists>sols. find_all_solutions_from_numbers [1, 0, 2, 3] False = Inr sols \<and> sorted sols \<and>
     structure_result 1 0 2 3 Div Add Add Left_Left = Inl ZeroDivisionError \<and>
     evaluate_expression 1 0 2 3 Div Add Add Left_Left = (False, [])"
proof -
  have len: "length [1, 0, 2, 3 :: rat] = 4" by simp
  have z: "structure_result 1 0 2 3 Div Add Add Left_Left = Inl ZeroDivisionError" by simp
  from search_never_raises [OF len, of False] z show ?thesis by blast
qed

text \<open>
  Claim C4. For four operands the list returned is sorted in the lexicographic order of
  the strings and has no duplicates; and it is determined by the set of solutions alone:
  in whatever order the elements of the set are listed before sorting, the sorted list is
  the same. On a list of any other length the search returns no list: the unpacking of the
  first ordering raises \<^verbatim>\<open>ValueError\<close>.
\<close>

theorem search_sorted_distinct:
  "(length nums = 4 \<longrightarrow>
      (\<exists>sols. find_all_solutions_from_numbers nums keep_order = Inr sols \<and>
         sorted sols \<and> distinct sols \<and>
         (\<forall>l. distinct l \<and> set l = set sols \<longrightarrow> sort l = sols))) \<and>
   (length nums \<noteq> 4 \<longrightarrow> find_all_solutions_from_numbers nums keep_order = Inl ValueError)"
proof (intro conjI impI)
  assume len: "length nums = 4"
  let ?S = "reference_solutions within_tolerance nums keep_order"
  let ?sols = "sorted_list_of_set ?S"
  have r: "find_all_solutions_from_numbers nums keep_order = Inr ?sols"
    using len by (rule find_all_reference)
  have sd: "sorted ?sols" "distinct ?sols" by simp_all
  have "sort l = ?sols" if "distinct l" "set l = set ?sols" for l
  proof (rule sorted_distinct_set_unique)
    show "sorted (sort l)" by simp
    show "distinct (sort l)" using that by simp
    show "sorted ?sols" "distinct ?sols" by simp_all
    show "set (sort l) = set ?sols" using that by simp
  qed
  with r sd show "\<exists>sols. find_all_solutions_from_numbers nums keep_order = Inr sols \<and>
         sorted sols \<and> distinct sols \<and>
         (\<forall>l. distinct l \<and> set l = set sols \<longrightarrow> sort l = sols)" by blast
next
  assume "length nums \<noteq> 4"
  then show "find_all_solutions_from_numbers nums keep_order = Inl ValueError"
    by (simp add: find_all_solutions_from_numbers_def search_run_bad)
qed

text \<open>The theorem at the hand 6, 6, 2, 2 with every ordering tried, and at a hand of three.\<close>

theorem search_sorted_distinct_witness:
  "(\<exists>sols. find_all_solutions_from_numbers [6, 6, 2, 2] False = Inr sols \<and>
           sorted sols \<and> distinct sols) \<and>
   find_all_solutions_from_numbers [6, 6, 2] False = Inl ValueError"
proof -
  have len: "length [6, 6, 2, 2 :: rat] = 4" by simp
  have len3: "length [6, 6, 2 :: rat] \<noteq> 4" by simp
  from search_sorted_distinct [of "[6, 6, 2, 2]" False] len
  have "\<exists>sols. find_all_solutions_from_numbers [6, 6, 2, 2] False = Inr sols \<and>
           sorted sols \<and> distinct sols" by blast
  moreover from search_sorted_distinct [of "[6, 6, 2]" False] len3
  have "find_all_solutions_from_numbers [6, 6, 2] False = Inl ValueError" by blast
  ultimately show ?thesis by (rule conjI)
qed

text \<open>
  Claim C5. For four operands, the search over every ordering returns at least as many
  solutions as the search in the given order; indeed every solution of the latter is one
  of the former.
\<close>

theorem relaxing_order_adds:
  assumes "length nums = 4"
  shows "\<exists>kept free. find_all_solutions_from_numbers nums True = Inr kept \<and>
           find_all_solutions_from_numbers nums False = Inr free \<and>
           set kept \<subseteq> set free \<and> length kept \<le> length free"
proof -
  let ?K = "reference_solutions within_tolerance nums True"
  let ?F = "reference_solutions within_tolerance nums False"
  have "set (orderings nums True) \<subseteq> set (orderings nums False)"
    by (simp add: orderings_def self_in_permutations)
  then have sub: "?K \<subseteq> ?F"
    unfolding subset_iff reference_solutions_iff by blast
  then have "card ?K \<le> card ?F"
    by (intro card_mono finite_reference)
  then have "length (sorted_list_of_set ?K) \<le> length (sorted_list_of_set ?F)"
    by simp
  moreover have "set (sorted_list_of_set ?K) \<subseteq> set (sorted_list_of_set ?F)"
    using sub by (simp add: set_sorted_reference)
  ultimately show ?thesis
    using find_all_reference [OF assms] by blast
qed

text \<open>The theorem at the hand 6, 6, 2, 2.\<close>

theorem relaxing_order_adds_witness:
  "\<exists>kept free. find_all_solutions_from_numbers [6, 6, 2, 2] True = Inr kept \<and>
           find_all_solutions_from_numbers [6, 6, 2, 2] False = Inr free \<and>
           set kept \<subseteq> set free \<and> length kept \<le> length free"
proof -
  have len: "length [6, 6, 2, 2 :: rat] = 4" by simp
  from relaxing_order_adds [OF len] show ?thesis .
qed

text \<open>
  Claim C6. \<^verbatim>\<open>has_solution\<close> on a hand is the search on the values of the cards with the
  order kept: it returns true exactly when that search returns a list that is not empty
  (and raises what that search raises).
\<close>

theorem has_solution_keeps_order:
  "has_solution cards =
     (case find_all_solutions_from_numbers (map (\<lambda>c. of_int (card_value c)) cards) True of
        Inl e \<Rightarrow> Inl e
      | Inr sols \<Rightarrow> Inr (sols \<noteq> []))"
  by (simp add: has_solution_def find_all_solutions_def split: sum.splits)

text \<open>
  Claim C7. For the operands 6, 6, 2, 2 with every ordering tried, the result is not
  empty and contains the string \<^verbatim>\<open>(6 * 2) + (6 * 2)\<close>.
\<close>

theorem six_six_two_two:
  "\<exists>sols. find_all_solutions_from_numbers [6, 6, 2, 2] False = Inr sols \<and> sols \<noteq> [] \<and>
     ''(6 * 2) + (6 * 2)'' \<in> set sols"
proof -
  let ?S = "reference_solutions within_tolerance [6, 6, 2, 2] False"
  have m: "''(6 * 2) + (6 * 2)'' \<in> set (sorted_list_of_set ?S)"
    using six_two_member by (simp only: set_sorted_reference)
  then have "sorted_list_of_set ?S \<noteq> []" by auto
  with m find_all_reference [of "[6, 6, 2, 2]" False] show ?thesis by simp
qed

text \<open>
  Claim C8. For the operands 1, 1, 1, 1 with every ordering tried the search returns the
  empty list, and \<^verbatim>\<open>has_solution\<close> on four aces, of whatever suits, returns false.
\<close>

theorem four_aces:
  "find_all_solutions_from_numbers [1, 1, 1, 1] False = Inr [] \<and>
   and_then (new_card py_int s1 ''A'') (\<lambda>c1.
   and_then (new_card py_int s2 ''A'') (\<lambda>c2.
   and_then (new_card py_int s3 ''A'') (\<lambda>c3.
   and_then (new_card py_int s4 ''A'') (\<lambda>c4.
     has_solution [c1, c2, c3, c4])))) = Inr False"
proof -
  have "find_all_solutions_from_numbers [1, 1, 1, 1] keep = Inr []" for keep
    using find_all_reference [of "[1, 1, 1, 1]" keep] by (simp add: ones_empty)
  then show ?thesis
    by (simp add: new_card_def get_value_def has_solution_def find_all_solutions_def)
qed

text \<open>
  Claim C9. A run of the search on four operands ends in a state whose list \<^verbatim>\<open>numbers\<close> is
  the list it was given, and whose set \<^verbatim>\<open>solutions\<close> holds the accepted strings. More
  generally the loop over the orderings changes nothing of a state but \<^verbatim>\<open>solutions\<close>, to
  which it adds the strings accepted for its candidates: what an evaluation contributes
  depends on its candidate only, not on the state left by the evaluations before it.
\<close>

theorem search_frame:
  assumes "length nums = 4"
  shows "search_run nums keep_order =
           Inr \<lparr>numbers = nums, solutions = accepted (orderings nums keep_order)\<rparr> \<and>
         (\<forall>perms st. (\<forall>p\<in>set perms. length p = 4) \<longrightarrow>
            perm_loop perms st = Inr (st\<lparr>solutions := solutions st \<union> accepted perms\<rparr>))"
proof -
  have "\<forall>p\<in>set (orderings nums keep_order). length p = 4"
    using assms orderings_length by auto
  from perm_loop_state [OF this, of "\<lparr>numbers = nums, solutions = {}\<rparr>"]
  have "search_run nums keep_order =
           Inr \<lparr>numbers = nums, solutions = accepted (orderings nums keep_order)\<rparr>"
    unfolding search_run_orderings by simp
  then show ?thesis using perm_loop_state by blast
qed

text \<open>The theorem at the hand 6, 6, 2, 2 with every ordering tried.\<close>

theorem search_frame_witness:
  "search_run [6, 6, 2, 2] False =
     Inr \<lparr>numbers = [6, 6, 2, 2], solutions = accepted (orderings [6, 6, 2, 2] False)\<rparr>"
proof -
  have len: "length [6, 6, 2, 2 :: rat] = 4" by simp
  from search_frame [OF len, of False] show ?thesis by blast
qed

text \<open>
  Claim C10. For operands that are ranks from 1 to 13, in any order, with any operators and
  any of the five structures: when the evaluation succeeds with the value \<open>v\<close>, the
  acceptance test \<open>\<bar>v - 24\<bar> < tolerance\<close> holds exactly when \<open>v = 24\<close>; a value other than
  24 differs from 24 by more than the float \<^verbatim>\<open>1e-9\<close> and by more than \<open>1 / 10 ^ 9\<close>; and
  \<^verbatim>\<open>evaluate_expression\<close> answers true exactly when \<open>v = 24\<close>.
\<close>

theorem rank_tolerance_is_exact:
  assumes "is_rank a" "is_rank b" "is_rank c" "is_rank d"
    and "structure_result a b c d op1 op2 op3 s = Inr v"
  shows "(\<bar>v - 24\<bar> < tolerance \<longleftrightarrow> v = 24) \<and>
         (v = 24 \<or> tolerance < \<bar>v - 24\<bar>) \<and> (v = 24 \<or> 1 / 10 ^ 9 < \<bar>v - 24\<bar>) \<and>
         (fst (evaluate_expression a b c d op1 op2 op3 s) \<longleftrightarrow> v = 24)"
proof -
  have iff: "\<bar>v - 24\<bar> < tolerance \<longleftrightarrow> v = 24"
    using rank_within_tolerance [OF assms] by (simp add: within_tolerance_def is_24_def)
  have gap: "1 / 228488 \<le> \<bar>v - 24\<bar>" if "v \<noteq> 24"
    using rank_gap [OF assms that] .
  have "v = 24 \<or> tolerance < \<bar>v - 24\<bar>" using gap tolerance_small by fastforce
  moreover have "v = 24 \<or> 1 / 10 ^ 9 < \<bar>v - 24\<bar>" using gap by fastforce
  moreover have "fst (evaluate_expression a b c d op1 op2 op3 s) \<longleftrightarrow> v = 24"
    using iff assms(5) by (simp add: evaluate_expression_def Let_def)
  ultimately show ?thesis using iff by blast
qed

text \<open>
  The theorem at \<open>8 / (3 - (8 / 3)) = 24\<close>, accepted, and at \<open>((13 / 13) / 13) / 13 = 1 / 169\<close>,
  refused.
\<close>

theorem rank_tolerance_is_exact_witness:
  "structure_result 8 3 8 3 Div Sub Div Right_Right = Inr 24 \<and>
   fst (evaluate_expression 8 3 8 3 Div Sub Div Right_Right) \<and>
   structure_result 13 13 13 13 Div Div Div Left_Left = Inr (1 / 169) \<and>
   \<not> fst (evaluate_expression 13 13 13 13 Div Div Div Left_Left)"
proof -
  have r: "is_rank 3" "is_rank 8" "is_rank 13" by (simp_all add: is_rank_def)
  have v1: "structure_result 8 3 8 3 Div Sub Div Right_Right = Inr 24" by simp
  have v2: "structure_result 13 13 13 13 Div Div Div Left_Left = Inr (1 / 169)" by simp
  from rank_tolerance_is_exact [OF r(2) r(1) r(2) r(1) v1]
       rank_tolerance_is_exact [OF r(3) r(3) r(3) r(3) v2] v1 v2
  show ?thesis by simp
qed

end
